theory Spec2Isabelle
  imports Main
begin

section \<open>Offline cache worker (static/js/service-worker.js)\<close>

text \<open>
  The worker is three event listeners over the browser's Cache Storage and the network.
  A promise is modelled by the value it settles to; the host primitives the listeners call
  (\<open>caches.open\<close>, \<open>caches.keys\<close>, \<open>caches.delete\<close>, \<open>caches.match\<close>,
  \<open>cache.addAll\<close>, \<open>fetch\<close>) are modelled by their contract in the Service Worker
  standard, the listeners themselves line by line from the script.
\<close>

datatype error = TypeError | NetworkError

datatype 'a settled = Fulfilled 'a | Rejected error

text \<open>A request is its method and its URL, written as the worker's origin sees it: path,
  query and fragment (\<open>/input\<close>, \<open>/report?m=3\<close>, \<open>/input#top\<close>).\<close>

record request =
  req_url :: string
  req_method :: string

record response =
  resp_status :: nat
  resp_body :: string

text \<open>A cache holds entries keyed by request URL, in insertion order; the storage holds
  named caches in creation order.\<close>

type_synonym cache = "(string \<times> response) list"

type_synonym cache_storage = "(string \<times> cache) list"

text \<open>The network is a parameter: the settled value of \<open>fetch(request)\<close>.\<close>

type_synonym network = "request \<Rightarrow> response settled"

record worker_world =
  caches :: cache_storage
  net_log :: "request list"

definition CACHE_NAME :: string where
  "CACHE_NAME = ''pwa-sales-app-v1''"

definition URLS_TO_CACHE :: "string list" where
  "URLS_TO_CACHE =
    [ ''/'',
      ''/input'',
      ''/report'',
      ''/settings'',
      ''/performance'',
      ''/static/css/style.css'',
      ''/static/js/main.js'',
      ''/static/js/service-worker.js'',
      ''/static/image/icon-192.png'',
      ''/static/image/icon-512.png'' ]"

subsection \<open>Host primitives\<close>

definition get_request :: "string \<Rightarrow> request" where
  "get_request u = \<lparr>req_url = u, req_method = ''GET''\<rparr>"

definition startsWith :: "string \<Rightarrow> string \<Rightarrow> bool" where
  "startsWith s pre = (take (length pre) s = pre)"

text \<open>\<open>caches.keys()\<close>: the names of the existing caches, in creation order.\<close>

definition caches_keys :: "cache_storage \<Rightarrow> string list" where
  "caches_keys cs = map fst cs"

text \<open>\<open>caches.open(name)\<close>: the named cache, created empty when absent.\<close>

definition caches_open :: "string \<Rightarrow> cache_storage \<Rightarrow> cache_storage" where
  "caches_open name cs = (if name \<in> set (caches_keys cs) then cs else cs @ [(name, [])])"

text \<open>\<open>caches.delete(name)\<close>: removes the named cache with all its entries.\<close>

definition caches_delete :: "string \<Rightarrow> cache_storage \<Rightarrow> cache_storage" where
  "caches_delete name cs = filter (\<lambda>kc. fst kc \<noteq> name) cs"

text \<open>The entries of a named cache (none when there is no such cache).\<close>

definition entries_of :: "string \<Rightarrow> cache_storage \<Rightarrow> cache" where
  "entries_of name cs = (case map_of cs name of None \<Rightarrow> [] | Some c \<Rightarrow> c)"

text \<open>Two URLs name the same cache entry when they are equal up to their fragments: the
  request matching of the Cache interface compares URLs with the fragment excluded (and
  the query included).\<close>

definition without_fragment :: "string \<Rightarrow> string" where
  "without_fragment u = takeWhile (\<lambda>ch. ch \<noteq> CHR ''#'') u"

definition same_url :: "string \<Rightarrow> string \<Rightarrow> bool" where
  "same_url a b = (without_fragment a = without_fragment b)"

text \<open>\<open>cache.match(request)\<close>: only GET requests match; the answer is the response of the
  first entry whose URL is the request's up to the fragment.\<close>

definition cache_match :: "cache \<Rightarrow> request \<Rightarrow> response option" where
  "cache_match c rq =
     (if req_method rq \<noteq> ''GET'' then None
      else map_option snd (find (\<lambda>e. same_url (fst e) (req_url rq)) c))"

text \<open>\<open>caches.match(request)\<close>: the first match over the caches in creation order,
  \<open>undefined\<close> (here \<open>None\<close>) when no cache has one.\<close>

fun caches_match :: "cache_storage \<Rightarrow> request \<Rightarrow> response option" where
  "caches_match [] rq = None"
| "caches_match ((name, c) # cs) rq =
     (case cache_match c rq of Some r \<Rightarrow> Some r | None \<Rightarrow> caches_match cs rq)"

text \<open>\<open>cache.put\<close>: the entries the new request matches are replaced.\<close>

definition cache_put :: "string \<Rightarrow> response \<Rightarrow> cache \<Rightarrow> cache" where
  "cache_put u r c = filter (\<lambda>e. \<not> same_url (fst e) u) c @ [(u, r)]"

definition ok_status :: "response \<Rightarrow> bool" where
  "ok_status r = (200 \<le> resp_status r \<and> resp_status r \<le> 299 \<and> resp_status r \<noteq> 206)"

text \<open>One request of a bulk add is good when its fetch is fulfilled with an ok status.\<close>

definition fetched_ok :: "network \<Rightarrow> string \<Rightarrow> bool" where
  "fetched_ok net u =
     (case net (get_request u) of Fulfilled r \<Rightarrow> ok_status r | Rejected e \<Rightarrow> False)"

fun put_all :: "network \<Rightarrow> string list \<Rightarrow> cache \<Rightarrow> cache" where
  "put_all net [] c = c"
| "put_all net (u # us) c =
     (case net (get_request u) of
        Fulfilled r \<Rightarrow> put_all net us (cache_put u r c)
      | Rejected e \<Rightarrow> put_all net us c)"

definition update_cache :: "string \<Rightarrow> (cache \<Rightarrow> cache) \<Rightarrow> cache_storage \<Rightarrow> cache_storage" where
  "update_cache name f cs = map (\<lambda>kc. if fst kc = name then (fst kc, f (snd kc)) else kc) cs"

text \<open>\<open>cache.addAll(urls)\<close> on the named cache: every URL is fetched; when one fetch is
  rejected or answers with a status that is not ok, the promise is rejected with a
  \<open>TypeError\<close> and nothing is stored; otherwise all the responses are stored.\<close>

definition cache_addAll ::
  "network \<Rightarrow> string \<Rightarrow> string list \<Rightarrow> worker_world \<Rightarrow> unit settled \<times> worker_world" where
  "cache_addAll net name urls w =
     (let w' = w\<lparr>net_log := net_log w @ map get_request urls\<rparr> in
      if list_all (fetched_ok net) urls
      then (Fulfilled (), w'\<lparr>caches := update_cache name (put_all net urls) (caches w')\<rparr>)
      else (Rejected TypeError, w'))"

subsection \<open>The three listeners\<close>

text \<open>\<open>install\<close>: \<open>caches.open(CACHE_NAME).then(cache => cache.addAll(URLS_TO_CACHE))\<close>;
  the result is what the promise given to \<open>waitUntil\<close> settles to.\<close>

definition install :: "network \<Rightarrow> worker_world \<Rightarrow> unit settled \<times> worker_world" where
  "install net w =
     cache_addAll net CACHE_NAME URLS_TO_CACHE
       (w\<lparr>caches := caches_open CACHE_NAME (caches w)\<rparr>)"

text \<open>\<open>activate\<close>: every key of \<open>caches.keys()\<close> other than \<open>CACHE_NAME\<close> is deleted.\<close>

definition activate :: "worker_world \<Rightarrow> unit settled \<times> worker_world" where
  "activate w =
     (let keys = caches_keys (caches w)
      in (Fulfilled (),
          w\<lparr>caches := fold caches_delete (filter (\<lambda>key. key \<noteq> CACHE_NAME) keys) (caches w)\<rparr>))"

text \<open>\<open>fetch\<close>: the listener returns before \<open>respondWith\<close> for a method other than GET;
  otherwise it responds with \<open>cached || fetch(event.request)\<close>.\<close>

datatype fetch_outcome = NotIntercepted | RespondWith "response settled"

definition fetch_listener :: "network \<Rightarrow> request \<Rightarrow> worker_world \<Rightarrow> fetch_outcome \<times> worker_world" where
  "fetch_listener net rq w =
     (if req_method rq \<noteq> ''GET'' then (NotIntercepted, w)
      else (case caches_match (caches w) rq of
              Some cached \<Rightarrow> (RespondWith (Fulfilled cached), w)
            | None \<Rightarrow> (RespondWith (net rq), w\<lparr>net_log := net_log w @ [rq]\<rparr>)))"

section \<open>Navigation transition handler (static/js/main.js)\<close>

text \<open>
  The document is a tree of elements. An element is referred to by its path from the root
  (the child indices); the script never changes the shape of the tree, so a path keeps
  naming the same element.
\<close>

datatype node =
  Node (localName: string) (attributes: "(string \<times> string) list")
       (classList: "string list") (children: "node list")

type_synonym path = "nat list"

fun node_at :: "node \<Rightarrow> path \<Rightarrow> node option" where
  "node_at n [] = Some n"
| "node_at n (i # p) =
     (if i < length (children n) then node_at (children n ! i) p else None)"

text \<open>The element at the path and its ancestors, nearest first; empty when the path
  names no element.\<close>

fun chain_from :: "node \<Rightarrow> path \<Rightarrow> node list \<Rightarrow> node list" where
  "chain_from n [] acc = n # acc"
| "chain_from n (i # p) acc =
     (if i < length (children n) then chain_from (children n ! i) p (n # acc) else [])"

definition ancestors_or_self :: "node \<Rightarrow> path \<Rightarrow> node list" where
  "ancestors_or_self root p = chain_from root p []"

definition getAttribute :: "node \<Rightarrow> string \<Rightarrow> string option" where
  "getAttribute n name = map_of (attributes n) name"

text \<open>The selector \<open>a[data-transition]\<close>.\<close>

definition transition_anchor :: "node \<Rightarrow> bool" where
  "transition_anchor n = (localName n = ''a'' \<and> getAttribute n ''data-transition'' \<noteq> None)"

text \<open>The selector \<open>.app-shell\<close>.\<close>

definition app_shell :: "node \<Rightarrow> bool" where
  "app_shell n = (''app-shell'' \<in> set (classList n))"

text \<open>\<open>element.closest(selector)\<close>: the nearest ancestor-or-self that matches.\<close>

definition closest :: "(node \<Rightarrow> bool) \<Rightarrow> node \<Rightarrow> path \<Rightarrow> node option" where
  "closest sel root p = find sel (ancestors_or_self root p)"

text \<open>\<open>document.querySelector(selector)\<close>: the first match in document order.\<close>

fun querySelector :: "(node \<Rightarrow> bool) \<Rightarrow> node \<Rightarrow> path option"
  and querySelector_in :: "(node \<Rightarrow> bool) \<Rightarrow> node list \<Rightarrow> nat \<Rightarrow> path option" where
  "querySelector sel (Node t a c ns) =
     (if sel (Node t a c ns) then Some [] else querySelector_in sel ns 0)"
| "querySelector_in sel [] i = None"
| "querySelector_in sel (n # ns) i =
     (case querySelector sel n of
        Some p \<Rightarrow> Some (i # p)
      | None \<Rightarrow> querySelector_in sel ns (Suc i))"

text \<open>\<open>classList.add(c)\<close>: the class list is a set of tokens.\<close>

definition classList_add :: "string \<Rightarrow> node \<Rightarrow> node" where
  "classList_add c n =
     (if c \<in> set (classList n) then n
      else Node (localName n) (attributes n) (classList n @ [c]) (children n))"

fun update_at :: "(node \<Rightarrow> node) \<Rightarrow> node \<Rightarrow> path \<Rightarrow> node" where
  "update_at f n [] = f n"
| "update_at f n (i # p) =
     (if i < length (children n)
      then Node (localName n) (attributes n) (classList n)
             ((children n)[i := update_at f (children n ! i) p])
      else n)"

text \<open>
  The page: its document, the click listeners registered on the body (each is the closure
  of the script's listener over the shell it captured), the pending timeouts (due time and
  the URL their callback assigns to \<open>window.location.href\<close>), the location and a clock in
  milliseconds. \<open>setTimeout\<close>'s handle is dropped by the script, so a timer is only its
  due time and callback.
\<close>

record page =
  document :: node
  listeners :: "path list"
  timers :: "(nat \<times> string) list"
  location_href :: string
  clock :: nat

definition initial_page :: "node \<Rightarrow> string \<Rightarrow> page" where
  "initial_page doc href =
     \<lparr>document = doc, listeners = [], timers = [], location_href = href, clock = 0\<rparr>"

text \<open>The \<open>DOMContentLoaded\<close> listener: without a shell it returns before
  \<open>addEventListener\<close>.\<close>

definition DOMContentLoaded :: "page \<Rightarrow> page" where
  "DOMContentLoaded pg =
     (case querySelector app_shell (document pg) of
        None \<Rightarrow> pg
      | Some shell \<Rightarrow> pg\<lparr>listeners := listeners pg @ [shell]\<rparr>)"

text \<open>The click listener, closed over \<open>shell\<close>, on a click whose target is at path
  \<open>target\<close>. The boolean says whether it called \<open>preventDefault\<close>.\<close>

definition click_listener :: "path \<Rightarrow> path \<Rightarrow> page \<Rightarrow> bool \<times> page" where
  "click_listener shell target pg =
     (case closest transition_anchor (document pg) target of
        None \<Rightarrow> (False, pg)
      | Some link \<Rightarrow>
          (let url = getAttribute link ''href'';
               type = getAttribute link ''data-transition''
           in case url of
                None \<Rightarrow> (False, pg)
              | Some u \<Rightarrow>
                  if u = [] \<or> startsWith u ''http'' then (False, pg)
                  else (True,
                        pg\<lparr>document :=
                             update_at
                               (classList_add
                                  (if type = Some ''back'' then ''page-slide-out-right''
                                   else ''page-slide-out-left''))
                               (document pg) shell,
                           timers := timers pg @ [(clock pg + 180, u)]\<rparr>)))"

text \<open>A click reaching the body runs the registered listeners in order; the default
  action is suppressed when one of them prevented it.\<close>

fun dispatch_click :: "path list \<Rightarrow> path \<Rightarrow> page \<Rightarrow> bool \<times> page" where
  "dispatch_click [] target pg = (False, pg)"
| "dispatch_click (shell # ls) target pg =
     (case click_listener shell target pg of
        (b, pg1) \<Rightarrow> (case dispatch_click ls target pg1 of (b', pg2) \<Rightarrow> (b \<or> b', pg2)))"

text \<open>The timeout callback: \<open>window.location.href = url\<close>. The assignment navigates
  away: the document is unloaded, and its listeners and pending timeouts go with it.\<close>

definition fire :: "nat \<times> string \<Rightarrow> page \<Rightarrow> page" where
  "fire tm pg = pg\<lparr>location_href := snd tm, listeners := [], timers := []\<rparr>"

text \<open>The pending timer that runs first: the one with the least due time, the one set
  earlier among equals.\<close>

fun earliest :: "(nat \<times> string) list \<Rightarrow> (nat \<times> string) option" where
  "earliest [] = None"
| "earliest (tm # ts) =
     (case earliest ts of
        None \<Rightarrow> Some tm
      | Some tm' \<Rightarrow> if fst tm' < fst tm then Some tm' else Some tm)"

text \<open>Time passing: when a timer has become due, the first of them runs, and since its
  callback unloads the document no other does.\<close>

definition elapse :: "nat \<Rightarrow> page \<Rightarrow> page" where
  "elapse d pg =
     (let t = clock pg + d
      in case earliest (filter (\<lambda>tm. fst tm \<le> t) (timers pg)) of
           None \<Rightarrow> pg\<lparr>clock := t\<rparr>
         | Some tm \<Rightarrow> fire tm (pg\<lparr>clock := t\<rparr>))"

datatype page_event = Click path | Elapse nat

text \<open>A run of events; the result lists, for each click, whether its default action was
  suppressed.\<close>

fun run :: "page_event list \<Rightarrow> page \<Rightarrow> bool list \<times> page" where
  "run [] pg = ([], pg)"
| "run (Click target # es) pg =
     (case dispatch_click (listeners pg) target pg of
        (b, pg1) \<Rightarrow> (case run es pg1 of (bs, pg2) \<Rightarrow> (b # bs, pg2)))"
| "run (Elapse d # es) pg = run es (elapse d pg)"


text \<open>\<open>element.classList\<close> of the element a path names.\<close>

definition classes_at :: "node \<Rightarrow> path \<Rightarrow> string list" where
  "classes_at doc p = (case node_at doc p of None \<Rightarrow> [] | Some n \<Rightarrow> classList n)"

section \<open>Concrete inputs\<close>

text \<open>A storage with the current cache and a stale one, and three networks: one that
  answers every request, one that answers 404 for a single listed asset, one that is down.\<close>

definition demo_world :: worker_world where
  "demo_world =
     \<lparr>caches =
        [(''pwa-sales-app-v1'', [(''/input'', \<lparr>resp_status = 200, resp_body = ''cached''\<rparr>)]),
         (''old-cache'', [])],
      net_log = []\<rparr>"

definition online :: network where
  "online rq = Fulfilled \<lparr>resp_status = 200, resp_body = req_url rq\<rparr>"

definition flaky :: network where
  "flaky rq =
     (if req_url rq = ''/static/image/icon-512.png''
      then Fulfilled \<lparr>resp_status = 404, resp_body = []\<rparr>
      else Fulfilled \<lparr>resp_status = 200, resp_body = req_url rq\<rparr>)"

definition offline :: network where
  "offline rq = Rejected NetworkError"

text \<open>A document with a shell holding four links: a back link wrapping a span, a tab
  link, an external link and a link without the transition attribute.\<close>

definition demo_document :: node where
  "demo_document =
     Node ''body'' [] []
       [Node ''div'' [] [''app-shell'']
          [Node ''a'' [(''href'', ''/input''), (''data-transition'', ''back'')] []
             [Node ''span'' [] [] []],
           Node ''a'' [(''href'', ''/report''), (''data-transition'', ''tab'')] [] [],
           Node ''a'' [(''href'', ''https://example.org/''), (''data-transition'', ''tab'')] [] [],
           Node ''a'' [(''href'', ''/settings'')] [] []]]"

definition demo_page :: page where
  "demo_page = DOMContentLoaded (initial_page demo_document ''/'')"

text \<open>A document without a shell: a body holding one back link.\<close>

definition bare_document :: node where
  "bare_document =
     Node ''body'' [] []
       [Node ''a'' [(''href'', ''/input''), (''data-transition'', ''back'')] [] []]"

section \<open>Properties of the cache worker\<close>

subsection \<open>Cache storage\<close>

lemma fold_caches_delete:
  "fold caches_delete ks cs = filter (\<lambda>kc. fst kc \<notin> set ks) cs"
  by (induction ks arbitrary: cs) (auto simp: caches_delete_def intro: filter_cong)

lemma activate_caches:
  "caches (snd (activate w)) = filter (\<lambda>kc. fst kc = CACHE_NAME) (caches w)"
  by (auto simp: activate_def Let_def fold_caches_delete caches_keys_def intro!: filter_cong)

lemma same_url_refl: "same_url a a"
  by (simp add: same_url_def)

lemma without_fragment_plain: "CHR ''#'' \<notin> set u \<Longrightarrow> without_fragment u = u"
  by (auto simp: without_fragment_def takeWhile_eq_all_conv)

lemma same_url_plain:
  "CHR ''#'' \<notin> set a \<Longrightarrow> CHR ''#'' \<notin> set b \<Longrightarrow> same_url a b = (a = b)"
  by (simp add: same_url_def without_fragment_plain)

lemma urls_to_cache_plain: "\<forall>u \<in> set URLS_TO_CACHE. CHR ''#'' \<notin> set u"
  by (simp add: URLS_TO_CACHE_def)

lemma map_of_cache_put_same: "map_of (cache_put u r c) u = Some r"
  by (induction c) (auto simp: cache_put_def same_url_refl)

lemma map_of_filter_keeps:
  "(\<forall>e \<in> set c. fst e = v \<longrightarrow> P e) \<Longrightarrow> map_of (filter P c) v = map_of c v"
  by (induction c) auto

lemma map_of_cache_put_other:
  assumes "v \<noteq> u" and "CHR ''#'' \<notin> set v" and "CHR ''#'' \<notin> set u"
  shows "map_of (cache_put u r c) v = map_of c v"
proof -
  from assms have "\<not> same_url v u" by (simp add: same_url_plain)
  then have "map_of (filter (\<lambda>e. \<not> same_url (fst e) u) c) v = map_of c v"
    by (intro map_of_filter_keeps) auto
  with assms(1) show ?thesis
    by (simp add: cache_put_def map_add_def split: option.splits)
qed

lemma put_all_other:
  "u \<notin> set us \<Longrightarrow> CHR ''#'' \<notin> set u \<Longrightarrow> \<forall>v \<in> set us. CHR ''#'' \<notin> set v \<Longrightarrow>
   map_of (put_all net us c) u = map_of c u"
  by (induction us arbitrary: c) (auto simp: map_of_cache_put_other split: settled.splits)

lemma put_all_present:
  "list_all (fetched_ok net) us \<Longrightarrow> \<forall>v \<in> set us. CHR ''#'' \<notin> set v \<Longrightarrow> u \<in> set us \<Longrightarrow>
   \<exists>r. net (get_request u) = Fulfilled r \<and> ok_status r \<and> map_of (put_all net us c) u = Some r"
proof (induction us arbitrary: c)
  case Nil
  then show ?case by simp
next
  case (Cons v us)
  from Cons.prems(1) have hd: "fetched_ok net v" and rest: "list_all (fetched_ok net) us"
    by simp_all
  from Cons.prems(2) have plain: "\<forall>v \<in> set us. CHR ''#'' \<notin> set v" and pv: "CHR ''#'' \<notin> set v"
    by simp_all
  from hd obtain rv where rv: "net (get_request v) = Fulfilled rv" "ok_status rv"
    by (auto simp: fetched_ok_def split: settled.splits)
  show ?case
  proof (cases "u \<in> set us")
    case True
    from Cons.IH [OF rest plain True, of "cache_put v rv c"] rv show ?thesis by simp
  next
    case False
    with Cons.prems(3) have "u = v" by simp
    with False rv pv plain show ?thesis
      by (simp add: put_all_other map_of_cache_put_same)
  qed
qed

lemma entries_of_append_empty: "entries_of k (cs @ [(name, [])]) = entries_of k cs"
  by (induction cs) (auto simp: entries_of_def)

lemma entries_of_update_cache:
  "entries_of name (update_cache name f cs) =
     (if name \<in> set (caches_keys cs) then f (entries_of name cs) else [])"
  by (induction cs) (auto simp: entries_of_def update_cache_def caches_keys_def)

lemma caches_keys_update_cache: "caches_keys (update_cache name f cs) = caches_keys cs"
  by (induction cs) (auto simp: update_cache_def caches_keys_def)

lemma caches_keys_open:
  "set (caches_keys (caches_open name cs)) = insert name (set (caches_keys cs))"
  by (auto simp: caches_open_def caches_keys_def)

lemma entries_of_open: "entries_of k (caches_open name cs) = entries_of k cs"
  by (simp add: caches_open_def entries_of_append_empty)

lemma entries_of_filter_same:
  "entries_of name (filter (\<lambda>kc. fst kc = name) cs) = entries_of name cs"
  by (induction cs) (auto simp: entries_of_def)

lemma cache_match_None_iff:
  "(cache_match c rq = None) =
     (req_method rq \<noteq> ''GET'' \<or> (\<forall>e \<in> set c. \<not> same_url (fst e) (req_url rq)))"
  by (auto simp: cache_match_def find_None_iff)

lemma find_SomeD: "find P xs = Some x \<Longrightarrow> x \<in> set xs \<and> P x"
  by (induction xs) (auto split: if_splits)

lemma cache_match_SomeD:
  "cache_match c rq = Some r \<Longrightarrow> \<exists>e \<in> set c. same_url (fst e) (req_url rq) \<and> r = snd e"
  by (auto simp: cache_match_def split: if_splits dest: find_SomeD)

lemma caches_match_None_iff:
  "(caches_match cs rq = None) =
     (req_method rq \<noteq> ''GET'' \<or>
      (\<forall>kc \<in> set cs. \<forall>e \<in> set (snd kc). \<not> same_url (fst e) (req_url rq)))"
proof (induction cs rq rule: caches_match.induct)
  case (1 rq)
  show ?case by simp
next
  case (2 name c cs rq)
  show ?case
  proof (cases "cache_match c rq")
    case None
    with 2 [OF None] cache_match_None_iff [of c rq] show ?thesis by auto
  next
    case (Some r)
    with cache_match_None_iff [of c rq] show ?thesis by auto
  qed
qed

lemma caches_match_SomeD:
  "caches_match cs rq = Some r \<Longrightarrow>
     \<exists>kc \<in> set cs. \<exists>e \<in> set (snd kc). same_url (fst e) (req_url rq) \<and> r = snd e"
proof (induction cs rq rule: caches_match.induct)
  case (1 rq)
  then show ?case by simp
next
  case (2 name c cs rq)
  show ?case
  proof (cases "cache_match c rq")
    case None
    with 2 show ?thesis by auto
  next
    case (Some r')
    with 2(2) have "r' = r" by simp
    with cache_match_SomeD [OF Some] show ?thesis by auto
  qed
qed

lemma install_ok:
  "list_all (fetched_ok net) URLS_TO_CACHE \<Longrightarrow>
   install net w =
     (Fulfilled (),
      w\<lparr>caches := update_cache CACHE_NAME (put_all net URLS_TO_CACHE)
                    (caches_open CACHE_NAME (caches w)),
        net_log := net_log w @ map get_request URLS_TO_CACHE\<rparr>)"
  by (simp add: install_def cache_addAll_def Let_def)

lemma install_failed:
  "\<not> list_all (fetched_ok net) URLS_TO_CACHE \<Longrightarrow>
   install net w =
     (Rejected TypeError,
      w\<lparr>caches := caches_open CACHE_NAME (caches w),
        net_log := net_log w @ map get_request URLS_TO_CACHE\<rparr>)"
  by (simp add: install_def cache_addAll_def Let_def)

lemma online_fetches_all: "list_all (fetched_ok online) URLS_TO_CACHE"
  by (simp add: URLS_TO_CACHE_def fetched_ok_def online_def ok_status_def)

lemma flaky_fails_icon: "\<not> fetched_ok flaky ''/static/image/icon-512.png''"
  by (simp add: fetched_ok_def flaky_def get_request_def ok_status_def)

subsection \<open>The fetch listener\<close>

text \<open>
  C1. A request whose method is not GET is not intercepted and the world is left as it
  was. A GET request that matches an entry of some cache of the storage (same URL up to the
  fragment) is answered with the response of a matching entry, the network log and the
  caches unchanged (no network call). A GET request that matches no entry of any cache is
  answered with what the live fetch settles to; the request is logged once and the caches
  are unchanged (nothing is written back).
\<close>

theorem fetch_listener_cache_first:
  "(req_method rq \<noteq> ''GET'' \<longrightarrow> fetch_listener net rq w = (NotIntercepted, w)) \<and>
   (req_method rq = ''GET'' \<and>
    (\<exists>kc \<in> set (caches w). \<exists>e \<in> set (snd kc). same_url (fst e) (req_url rq)) \<longrightarrow>
      (\<exists>kc \<in> set (caches w). \<exists>e \<in> set (snd kc). same_url (fst e) (req_url rq) \<and>
          fetch_listener net rq w = (RespondWith (Fulfilled (snd e)), w))) \<and>
   (req_method rq = ''GET'' \<and>
    (\<forall>kc \<in> set (caches w). \<forall>e \<in> set (snd kc). \<not> same_url (fst e) (req_url rq)) \<longrightarrow>
      fetch_listener net rq w = (RespondWith (net rq), w\<lparr>net_log := net_log w @ [rq]\<rparr>))"
proof (intro conjI impI)
  assume "req_method rq \<noteq> ''GET''"
  then show "fetch_listener net rq w = (NotIntercepted, w)"
    by (simp add: fetch_listener_def)
next
  assume h: "req_method rq = ''GET'' \<and>
    (\<exists>kc \<in> set (caches w). \<exists>e \<in> set (snd kc). same_url (fst e) (req_url rq))"
  then have "caches_match (caches w) rq \<noteq> None"
    by (simp add: caches_match_None_iff)
  then obtain r where r: "caches_match (caches w) rq = Some r" by blast
  from caches_match_SomeD [OF r] obtain kc e where hit: "kc \<in> set (caches w)"
    "e \<in> set (snd kc)" "same_url (fst e) (req_url rq)" "r = snd e" by blast
  from h r have "fetch_listener net rq w = (RespondWith (Fulfilled r), w)"
    by (simp add: fetch_listener_def)
  with hit show "\<exists>kc \<in> set (caches w). \<exists>e \<in> set (snd kc). same_url (fst e) (req_url rq) \<and>
          fetch_listener net rq w = (RespondWith (Fulfilled (snd e)), w)" by blast
next
  assume h: "req_method rq = ''GET'' \<and>
    (\<forall>kc \<in> set (caches w). \<forall>e \<in> set (snd kc). \<not> same_url (fst e) (req_url rq))"
  then have "caches_match (caches w) rq = None"
    by (simp add: caches_match_None_iff)
  with h show "fetch_listener net rq w = (RespondWith (net rq), w\<lparr>net_log := net_log w @ [rq]\<rparr>)"
    by (simp add: fetch_listener_def)
qed

theorem fetch_listener_cache_first_witness:
  "fetch_listener offline \<lparr>req_url = ''/input'', req_method = ''POST''\<rparr> demo_world
     = (NotIntercepted, demo_world) \<and>
   fetch_listener offline (get_request ''/input'') demo_world
     = (RespondWith (Fulfilled \<lparr>resp_status = 200, resp_body = ''cached''\<rparr>), demo_world) \<and>
   fetch_listener offline (get_request ''/input#top'') demo_world
     = (RespondWith (Fulfilled \<lparr>resp_status = 200, resp_body = ''cached''\<rparr>), demo_world) \<and>
   fetch_listener online (get_request ''/report'') demo_world
     = (RespondWith (Fulfilled \<lparr>resp_status = 200, resp_body = ''/report''\<rparr>),
        demo_world\<lparr>net_log := [get_request ''/report'']\<rparr>)"
proof (intro conjI)
  show "fetch_listener offline \<lparr>req_url = ''/input'', req_method = ''POST''\<rparr> demo_world
     = (NotIntercepted, demo_world)"
    using fetch_listener_cache_first
      [of "\<lparr>req_url = ''/input'', req_method = ''POST''\<rparr>" offline demo_world]
    by simp
  show "fetch_listener offline (get_request ''/input'') demo_world
     = (RespondWith (Fulfilled \<lparr>resp_status = 200, resp_body = ''cached''\<rparr>), demo_world)"
    using fetch_listener_cache_first [of "get_request ''/input''" offline demo_world]
    by (simp add: get_request_def demo_world_def same_url_def without_fragment_def)
  show "fetch_listener offline (get_request ''/input#top'') demo_world
     = (RespondWith (Fulfilled \<lparr>resp_status = 200, resp_body = ''cached''\<rparr>), demo_world)"
    using fetch_listener_cache_first [of "get_request ''/input#top''" offline demo_world]
    by (simp add: get_request_def demo_world_def same_url_def without_fragment_def)
  show "fetch_listener online (get_request ''/report'') demo_world
     = (RespondWith (Fulfilled \<lparr>resp_status = 200, resp_body = ''/report''\<rparr>),
        demo_world\<lparr>net_log := [get_request ''/report'']\<rparr>)"
    using fetch_listener_cache_first [of "get_request ''/report''" online demo_world]
    by (simp add: get_request_def demo_world_def online_def same_url_def without_fragment_def)
qed

subsection \<open>The install listener\<close>

text \<open>
  C2. The bulk add of install is all or nothing. When every listed URL is fetched with an
  ok answer, the promise given to \<open>waitUntil\<close> is fulfilled and the cache named
  \<open>CACHE_NAME\<close> holds, for every listed URL, the response fetched for it. When the fetch of
  one listed URL fails, the promise is rejected and every cache holds exactly the entries
  it held before: nothing of the batch is stored.
\<close>

theorem install_bulk_add_atomic:
  "((\<forall>u \<in> set URLS_TO_CACHE. fetched_ok net u) \<longrightarrow>
      fst (install net w) = Fulfilled () \<and>
      (\<forall>u \<in> set URLS_TO_CACHE.
         \<exists>r. net (get_request u) = Fulfilled r \<and>
             map_of (entries_of CACHE_NAME (caches (snd (install net w)))) u = Some r)) \<and>
   ((\<exists>u \<in> set URLS_TO_CACHE. \<not> fetched_ok net u) \<longrightarrow>
      fst (install net w) = Rejected TypeError \<and>
      (\<forall>k. entries_of k (caches (snd (install net w))) = entries_of k (caches w)))"
proof (intro conjI impI)
  assume all: "\<forall>u \<in> set URLS_TO_CACHE. fetched_ok net u"
  then have ok: "list_all (fetched_ok net) URLS_TO_CACHE"
    by (simp add: list_all_iff)
  from install_ok [OF ok] show "fst (install net w) = Fulfilled ()" by simp
  have ent: "entries_of CACHE_NAME (caches (snd (install net w))) =
      put_all net URLS_TO_CACHE (entries_of CACHE_NAME (caches w))"
    by (simp add: install_ok [OF ok] entries_of_update_cache caches_keys_open entries_of_open)
  show "\<forall>u \<in> set URLS_TO_CACHE.
         \<exists>r. net (get_request u) = Fulfilled r \<and>
             map_of (entries_of CACHE_NAME (caches (snd (install net w)))) u = Some r"
    unfolding ent using put_all_present [OF ok urls_to_cache_plain] by blast
next
  assume "\<exists>u \<in> set URLS_TO_CACHE. \<not> fetched_ok net u"
  then have bad: "\<not> list_all (fetched_ok net) URLS_TO_CACHE"
    by (simp add: list_all_iff)
  from install_failed [OF bad] show "fst (install net w) = Rejected TypeError" by simp
  from install_failed [OF bad]
  show "\<forall>k. entries_of k (caches (snd (install net w))) = entries_of k (caches w)"
    by (simp add: entries_of_open)
qed

theorem install_bulk_add_atomic_witness:
  "list_all (fetched_ok online) URLS_TO_CACHE \<and>
   fst (install online demo_world) = Fulfilled () \<and>
   map_of (entries_of CACHE_NAME (caches (snd (install online demo_world)))) ''/report''
     = Some \<lparr>resp_status = 200, resp_body = ''/report''\<rparr> \<and>
   \<not> fetched_ok flaky ''/static/image/icon-512.png'' \<and>
   fst (install flaky demo_world) = Rejected TypeError \<and>
   entries_of CACHE_NAME (caches (snd (install flaky demo_world)))
     = [(''/input'', \<lparr>resp_status = 200, resp_body = ''cached''\<rparr>)]"
proof -
  have all: "\<forall>u \<in> set URLS_TO_CACHE. fetched_ok online u"
    using online_fetches_all by (simp add: list_all_iff)
  have listed: "''/report'' \<in> set URLS_TO_CACHE"
    by (simp add: URLS_TO_CACHE_def)
  have one: "\<exists>u \<in> set URLS_TO_CACHE. \<not> fetched_ok flaky u"
    using flaky_fails_icon by (auto simp: URLS_TO_CACHE_def)
  from install_bulk_add_atomic [of online demo_world] all listed
  have good: "fst (install online demo_world) = Fulfilled ()"
    "map_of (entries_of CACHE_NAME (caches (snd (install online demo_world)))) ''/report''
       = Some \<lparr>resp_status = 200, resp_body = ''/report''\<rparr>"
    by (auto simp: online_def get_request_def)
  from install_bulk_add_atomic [of flaky demo_world] one
  have bad: "fst (install flaky demo_world) = Rejected TypeError"
    "entries_of CACHE_NAME (caches (snd (install flaky demo_world)))
       = entries_of CACHE_NAME (caches demo_world)"
    by simp_all
  have before: "entries_of CACHE_NAME (caches demo_world)
       = [(''/input'', \<lparr>resp_status = 200, resp_body = ''cached''\<rparr>)]"
    by (simp add: entries_of_def demo_world_def CACHE_NAME_def)
  from good bad before online_fetches_all flaky_fails_icon show ?thesis by simp
qed

text \<open>
  C8, as amended. The list given to the bulk add is the five page paths followed by five
  static asset paths, ten in all, and install requests exactly this list whatever the
  network and the storage are.
\<close>

theorem urls_to_cache_fixed:
  "take 5 URLS_TO_CACHE = [''/'', ''/input'', ''/report'', ''/settings'', ''/performance''] \<and>
   drop 5 URLS_TO_CACHE =
     [''/static/css/style.css'', ''/static/js/main.js'', ''/static/js/service-worker.js'',
      ''/static/image/icon-192.png'', ''/static/image/icon-512.png''] \<and>
   (\<forall>net w. net_log (snd (install net w)) = net_log w @ map get_request URLS_TO_CACHE)"
  by (simp add: URLS_TO_CACHE_def install_def cache_addAll_def Let_def)

text \<open>C8 as stated fails: after the five page paths the list has five paths, not four.\<close>

theorem urls_to_cache_counterexample: "length (drop 5 URLS_TO_CACHE) \<noteq> 4"
  by (simp add: URLS_TO_CACHE_def)

subsection \<open>The activate listener\<close>

text \<open>
  C3. Activation deletes an existing cache exactly when its name differs from
  \<open>CACHE_NAME\<close>, and the cache it keeps keeps its entries. From the caches named
  \<open>pwa-sales-app-v1\<close> and \<open>old-cache\<close> only the former is left.
\<close>

theorem activate_deletes_stale:
  "(\<forall>k \<in> set (caches_keys (caches w)).
      (k \<notin> set (caches_keys (caches (snd (activate w))))) = (k \<noteq> CACHE_NAME)) \<and>
   entries_of CACHE_NAME (caches (snd (activate w))) = entries_of CACHE_NAME (caches w) \<and>
   caches (snd (activate \<lparr>caches = [(''pwa-sales-app-v1'', c1), (''old-cache'', c2)],
                           net_log = l\<rparr>))
     = [(''pwa-sales-app-v1'', c1)]"
proof (intro conjI)
  show "\<forall>k \<in> set (caches_keys (caches w)).
      (k \<notin> set (caches_keys (caches (snd (activate w))))) = (k \<noteq> CACHE_NAME)"
    by (auto simp: activate_caches caches_keys_def)
  show "entries_of CACHE_NAME (caches (snd (activate w))) = entries_of CACHE_NAME (caches w)"
    by (simp add: activate_caches entries_of_filter_same)
  show "caches (snd (activate \<lparr>caches = [(''pwa-sales-app-v1'', c1), (''old-cache'', c2)],
                                net_log = l\<rparr>))
     = [(''pwa-sales-app-v1'', c1)]"
    by (simp add: activate_caches CACHE_NAME_def)
qed

theorem activate_deletes_stale_witness:
  "caches_keys (caches demo_world) = [''pwa-sales-app-v1'', ''old-cache''] \<and>
   ''old-cache'' \<notin> set (caches_keys (caches (snd (activate demo_world)))) \<and>
   ''pwa-sales-app-v1'' \<in> set (caches_keys (caches (snd (activate demo_world))))"
proof -
  have keys: "caches_keys (caches demo_world) = [''pwa-sales-app-v1'', ''old-cache'']"
    by (simp add: caches_keys_def demo_world_def)
  from activate_deletes_stale [of demo_world] keys
  have "(''old-cache'' \<notin> set (caches_keys (caches (snd (activate demo_world)))))
          = (''old-cache'' \<noteq> CACHE_NAME)"
    and "(''pwa-sales-app-v1'' \<notin> set (caches_keys (caches (snd (activate demo_world)))))
          = (''pwa-sales-app-v1'' \<noteq> CACHE_NAME)"
    by simp_all
  with keys show ?thesis by (simp add: CACHE_NAME_def)
qed

text \<open>
  C9. After activation every cache that exists is named \<open>CACHE_NAME\<close>, and install adds
  to the names of the existing caches no name but \<open>CACHE_NAME\<close>.
\<close>

theorem cache_name_invariant:
  "(\<forall>k \<in> set (caches_keys (caches (snd (activate w)))). k = CACHE_NAME) \<and>
   set (caches_keys (caches (snd (install net w))))
     = insert CACHE_NAME (set (caches_keys (caches w)))"
proof
  show "\<forall>k \<in> set (caches_keys (caches (snd (activate w)))). k = CACHE_NAME"
    by (auto simp: activate_caches caches_keys_def)
  show "set (caches_keys (caches (snd (install net w))))
     = insert CACHE_NAME (set (caches_keys (caches w)))"
    by (cases "list_all (fetched_ok net) URLS_TO_CACHE")
       (simp_all add: install_ok install_failed caches_keys_update_cache caches_keys_open)
qed

theorem cache_name_invariant_witness:
  "caches_keys (caches (snd (activate demo_world))) = [''pwa-sales-app-v1''] \<and>
   ''pwa-sales-app-v1'' = CACHE_NAME \<and>
   set (caches_keys (caches (snd (install offline demo_world))))
     = {''pwa-sales-app-v1'', ''old-cache''}"
proof -
  have left: "caches_keys (caches (snd (activate demo_world))) = [''pwa-sales-app-v1'']"
    by (simp add: activate_caches caches_keys_def demo_world_def CACHE_NAME_def)
  with cache_name_invariant [of demo_world offline]
  have name: "''pwa-sales-app-v1'' = CACHE_NAME" by simp
  from cache_name_invariant [of demo_world offline] name
  have "set (caches_keys (caches (snd (install offline demo_world))))
     = {''pwa-sales-app-v1'', ''old-cache''}"
    by (simp add: caches_keys_def demo_world_def)
  with left name show ?thesis by simp
qed

section \<open>Properties of the transition handler\<close>

subsection \<open>The document\<close>

lemma node_at_update_at:
  "node_at n p = Some m \<Longrightarrow> node_at (update_at f n p) p = Some (f m)"
  by (induction n p rule: node_at.induct) (auto split: if_splits)

lemma classes_at_add:
  "node_at doc p = Some s \<Longrightarrow>
   set (classes_at (update_at (classList_add c) doc p) p) = insert c (set (classes_at doc p))"
  by (auto simp: classes_at_def node_at_update_at classList_add_def)

lemma querySelector_None:
  "(querySelector sel n = None) = (\<forall>p m. node_at n p = Some m \<longrightarrow> \<not> sel m)"
  "(querySelector_in sel ns i = None) =
     (\<forall>j < length ns. \<forall>p m. node_at (ns ! j) p = Some m \<longrightarrow> \<not> sel m)"
proof (induction sel n and sel ns i rule: querySelector_querySelector_in.induct)
  case (1 sel t a c ns)
  show ?case
  proof (cases "sel (Node t a c ns)")
    case True
    then have "node_at (Node t a c ns) [] = Some (Node t a c ns) \<and> sel (Node t a c ns)" by simp
    with True show ?thesis by (metis querySelector.simps(1) option.distinct(1))
  next
    case False
    have "(\<forall>p m. node_at (Node t a c ns) p = Some m \<longrightarrow> \<not> sel m) =
          (\<forall>j < length ns. \<forall>p m. node_at (ns ! j) p = Some m \<longrightarrow> \<not> sel m)"
    proof
      assume h: "\<forall>p m. node_at (Node t a c ns) p = Some m \<longrightarrow> \<not> sel m"
      show "\<forall>j < length ns. \<forall>p m. node_at (ns ! j) p = Some m \<longrightarrow> \<not> sel m"
      proof (intro allI impI)
        fix j p m assume "j < length ns" "node_at (ns ! j) p = Some m"
        then have "node_at (Node t a c ns) (j # p) = Some m" by simp
        with h show "\<not> sel m" by blast
      qed
    next
      assume h: "\<forall>j < length ns. \<forall>p m. node_at (ns ! j) p = Some m \<longrightarrow> \<not> sel m"
      show "\<forall>p m. node_at (Node t a c ns) p = Some m \<longrightarrow> \<not> sel m"
      proof (intro allI impI)
        fix p m assume nm: "node_at (Node t a c ns) p = Some m"
        show "\<not> sel m"
        proof (cases p)
          case Nil
          with nm False show ?thesis by simp
        next
          case (Cons j q)
          with nm h show ?thesis by (auto split: if_splits)
        qed
      qed
    qed
    with False 1 show ?thesis by simp
  qed
next
  case (2 sel i)
  show ?case by simp
next
  case (3 sel n ns i)
  show ?case
  proof (cases "querySelector sel n")
    case None
    with 3 show ?thesis by (auto simp: less_Suc_eq_0_disj)
  next
    case (Some p)
    with 3(1) obtain q m where "node_at n q = Some m" "sel m" by auto
    then have "node_at ((n # ns) ! 0) q = Some m \<and> sel m" by simp
    then have "\<not> (\<forall>j < length (n # ns). \<forall>p m. node_at ((n # ns) ! j) p = Some m \<longrightarrow> \<not> sel m)"
      by (metis length_greater_0_conv list.distinct(1))
    with Some show ?thesis by simp
  qed
qed

lemma querySelector_Some:
  "querySelector sel n = Some p \<Longrightarrow> node_at n p \<noteq> None"
  "querySelector_in sel ns i = Some q \<Longrightarrow>
     \<exists>j p. q = (i + j) # p \<and> j < length ns \<and> node_at (ns ! j) p \<noteq> None"
proof (induction sel n and sel ns i arbitrary: p and q rule: querySelector_querySelector_in.induct)
  case (1 sel t a c ns)
  show ?case
  proof (cases "sel (Node t a c ns)")
    case True
    with 1(2) show ?thesis by simp
  next
    case False
    with 1(2) have "querySelector_in sel ns 0 = Some p" by simp
    from 1(1) [OF False this] obtain j p' where "p = j # p'" "j < length ns"
      "node_at (ns ! j) p' \<noteq> None" by auto
    then show ?thesis by simp
  qed
next
  case (2 sel i)
  then show ?case by simp
next
  case (3 sel n ns i)
  show ?case
  proof (cases "querySelector sel n")
    case None
    with 3(3) have "querySelector_in sel ns (Suc i) = Some q" by simp
    from 3(2) [OF None this] obtain j p where "q = (Suc i + j) # p" "j < length ns"
      "node_at (ns ! j) p \<noteq> None" by auto
    then have "q = (i + Suc j) # p \<and> Suc j < length (n # ns) \<and> node_at ((n # ns) ! Suc j) p \<noteq> None"
      by simp
    then show ?thesis by blast
  next
    case (Some p)
    with 3(3) have "q = (i + 0) # p" by simp
    moreover from 3(1) [OF Some] have "node_at ((n # ns) ! 0) p \<noteq> None" by simp
    ultimately show ?thesis by (metis length_greater_0_conv list.distinct(1))
  qed
qed

lemma node_at_update_at_defined:
  assumes "\<And>m. children (f m) = children m"
  shows "(node_at (update_at f n q) p = None) = (node_at n p = None)"
proof (induction q arbitrary: n p)
  case Nil
  show ?case by (cases p) (simp_all add: assms)
next
  case (Cons j q)
  show ?case
  proof (cases p)
    case Nil
    then show ?thesis by simp
  next
    case (Cons i p')
    with Cons.IH show ?thesis by (auto simp: nth_list_update)
  qed
qed

lemma children_classList_add: "children (classList_add c m) = children m"
  by (simp add: classList_add_def)

subsection \<open>One run of the click listener\<close>

lemma click_listener_intercepts:
  assumes "closest transition_anchor (document pg) target = Some link"
    and "getAttribute link ''href'' = Some u" and "u \<noteq> []" and "\<not> startsWith u ''http''"
  shows "click_listener shell target pg =
     (True,
      pg\<lparr>document :=
           update_at
             (classList_add
                (if getAttribute link ''data-transition'' = Some ''back''
                 then ''page-slide-out-right'' else ''page-slide-out-left''))
             (document pg) shell,
         timers := timers pg @ [(clock pg + 180, u)]\<rparr>)"
  using assms by (simp add: click_listener_def Let_def)

lemma click_listener_keeps:
  "clock (snd (click_listener shell target pg)) = clock pg \<and>
   listeners (snd (click_listener shell target pg)) = listeners pg \<and>
   location_href (snd (click_listener shell target pg)) = location_href pg \<and>
   set (timers pg) \<subseteq> set (timers (snd (click_listener shell target pg)))"
  by (auto simp: click_listener_def Let_def split: option.splits)

lemma dispatch_click_keeps:
  "clock (snd (dispatch_click ls target pg)) = clock pg \<and>
   listeners (snd (dispatch_click ls target pg)) = listeners pg \<and>
   location_href (snd (dispatch_click ls target pg)) = location_href pg \<and>
   set (timers pg) \<subseteq> set (timers (snd (dispatch_click ls target pg)))"
proof (induction ls arbitrary: pg)
  case Nil
  show ?case by simp
next
  case (Cons shell ls)
  obtain b pg1 where s1: "click_listener shell target pg = (b, pg1)" by (cases "click_listener shell target pg")
  obtain b' pg2 where s2: "dispatch_click ls target pg1 = (b', pg2)" by (cases "dispatch_click ls target pg1")
  from click_listener_keeps [of shell target pg] s1
  have k1: "clock pg1 = clock pg" "listeners pg1 = listeners pg"
    "location_href pg1 = location_href pg" "set (timers pg) \<subseteq> set (timers pg1)" by simp_all
  from Cons.IH [of pg1] s2
  have k2: "clock pg2 = clock pg1" "listeners pg2 = listeners pg1"
    "location_href pg2 = location_href pg1" "set (timers pg1) \<subseteq> set (timers pg2)" by simp_all
  from k1 k2 s1 s2 show ?case by auto
qed

subsection \<open>Timers\<close>







lemma run_no_listeners:
  "listeners pg = [] \<Longrightarrow> timers pg = [] \<Longrightarrow>
   True \<notin> set (fst (run es pg)) \<and> document (snd (run es pg)) = document pg \<and>
   timers (snd (run es pg)) = [] \<and> location_href (snd (run es pg)) = location_href pg"
proof (induction es pg rule: run.induct)
  case (1 pg)
  then show ?case by simp
next
  case (2 target es pg)
  from 2(2) have s1: "dispatch_click (listeners pg) target pg = (False, pg)" by simp
  from 2(1) [OF s1 [symmetric] 2(2,3)] s1 show ?case by (auto split: prod.splits)
next
  case (3 d es pg)
  from 3(2,3) have "listeners (elapse d pg) = []" "timers (elapse d pg) = []"
    "document (elapse d pg) = document pg" "location_href (elapse d pg) = location_href pg"
    by (simp_all add: elapse_def Let_def)
  with 3(1) show ?case by simp
qed


subsection \<open>The shell stays in the document\<close>

text \<open>The listener only adds classes, so every path that names an element keeps naming
  one; in every page reached from \<open>DOMContentLoaded\<close> the shell each listener captured
  is an element of the document.\<close>

lemma click_listener_defined:
  "(node_at (document (snd (click_listener shell target pg))) p = None) =
   (node_at (document pg) p = None)"
  by (auto simp: click_listener_def Let_def node_at_update_at_defined children_classList_add
      split: option.splits)

lemma dispatch_click_defined:
  "(node_at (document (snd (dispatch_click ls target pg))) p = None) =
   (node_at (document pg) p = None)"
proof (induction ls arbitrary: pg)
  case Nil
  show ?case by simp
next
  case (Cons shell ls)
  from Cons.IH [of "snd (click_listener shell target pg)"]
    click_listener_defined [of shell target pg p]
  show ?case by (simp split: prod.splits) (metis snd_conv)
qed

lemma elapse_keeps:
  "document (elapse d pg) = document pg \<and>
   set (listeners (elapse d pg)) \<subseteq> set (listeners pg)"
  by (simp add: elapse_def Let_def fire_def split: option.splits)

lemma run_listeners_defined:
  "(\<forall>shell \<in> set (listeners pg). node_at (document pg) shell \<noteq> None) \<Longrightarrow>
   (\<forall>shell \<in> set (listeners (snd (run es pg))).
      node_at (document (snd (run es pg))) shell \<noteq> None)"
proof (induction es pg rule: run.induct)
  case (1 pg)
  then show ?case by simp
next
  case (2 target es pg)
  obtain b pg1 where s1: "dispatch_click (listeners pg) target pg = (b, pg1)"
    by (cases "dispatch_click (listeners pg) target pg")
  from dispatch_click_keeps [of "listeners pg" target pg] s1
  have l: "listeners pg1 = listeners pg" by simp
  from dispatch_click_defined [of "listeners pg" target pg] s1
  have d: "\<And>p. (node_at (document pg1) p = None) = (node_at (document pg) p = None)" by simp
  from 2(2) l d have "\<forall>shell \<in> set (listeners pg1). node_at (document pg1) shell \<noteq> None"
    by simp
  from 2(1) [OF s1 [symmetric] this] s1 show ?case by (auto split: prod.splits)
next
  case (3 d es pg)
  from 3(2) elapse_keeps [of d pg]
  have "\<forall>shell \<in> set (listeners (elapse d pg)). node_at (document (elapse d pg)) shell \<noteq> None"
    by auto
  from 3(1) [OF this] show ?case by simp
qed

lemma loaded_listeners_defined:
  "\<forall>shell \<in> set (listeners (snd (run es (DOMContentLoaded (initial_page doc href))))).
     node_at (document (snd (run es (DOMContentLoaded (initial_page doc href))))) shell \<noteq> None"
proof -
  let ?pg = "DOMContentLoaded (initial_page doc href)"
  have "\<forall>shell \<in> set (listeners ?pg). node_at (document ?pg) shell \<noteq> None"
    by (auto simp: DOMContentLoaded_def initial_page_def split: option.splits
        dest: querySelector_Some(1))
  from run_listeners_defined [OF this, of es] show ?thesis by simp
qed

subsection \<open>The demo page\<close>

lemma demo_page_eq:
  "demo_page = \<lparr>document = demo_document, listeners = [[0]], timers = [],
                 location_href = ''/'', clock = 0\<rparr>"
  by (simp add: demo_page_def DOMContentLoaded_def initial_page_def demo_document_def app_shell_def)

lemma demo_closest_back:
  "closest transition_anchor (document demo_page) [0, 0, 0] =
     Some (Node ''a'' [(''href'', ''/input''), (''data-transition'', ''back'')] []
             [Node ''span'' [] [] []])"
  by (simp add: demo_page_eq closest_def ancestors_or_self_def demo_document_def
      transition_anchor_def getAttribute_def)

lemma demo_closest_tab:
  "closest transition_anchor (document demo_page) [0, 1] =
     Some (Node ''a'' [(''href'', ''/report''), (''data-transition'', ''tab'')] [] [])"
  by (simp add: demo_page_eq closest_def ancestors_or_self_def demo_document_def
      transition_anchor_def getAttribute_def)

lemma demo_closest_external:
  "closest transition_anchor (document demo_page) [0, 2] =
     Some (Node ''a'' [(''href'', ''https://example.org/''), (''data-transition'', ''tab'')] [] [])"
  by (simp add: demo_page_eq closest_def ancestors_or_self_def demo_document_def
      transition_anchor_def getAttribute_def)

lemma demo_shell: "classes_at (document demo_page) [0] = [''app-shell'']"
  by (simp add: demo_page_eq demo_document_def classes_at_def)

subsection \<open>Intercepted clicks\<close>

text \<open>
  C4, as amended. A click whose nearest transition anchor has a non-empty href that does
  not start with \<open>http\<close> is intercepted: the listener prevents the default action and
  adds to the class list of the shell exactly one class, \<open>page-slide-out-right\<close> when the
  intent is \<open>back\<close> and \<open>page-slide-out-left\<close> for every other intent.
\<close>

theorem click_adds_slide_class:
  assumes "closest transition_anchor (document pg) target = Some link"
    and "getAttribute link ''href'' = Some u" and "u \<noteq> []" and "\<not> startsWith u ''http''"
    and "node_at (document pg) shell \<noteq> None"
  shows "fst (click_listener shell target pg) = True \<and>
     set (classes_at (document (snd (click_listener shell target pg))) shell) =
       insert (if getAttribute link ''data-transition'' = Some ''back''
               then ''page-slide-out-right'' else ''page-slide-out-left'')
         (set (classes_at (document pg) shell))"
proof -
  from assms(5) obtain s where "node_at (document pg) shell = Some s" by blast
  then show ?thesis
    by (simp add: click_listener_intercepts [OF assms(1-4)] classes_at_add)
qed

theorem click_adds_slide_class_witness:
  "fst (click_listener [0] [0, 0, 0] demo_page) = True \<and>
   set (classes_at (document (snd (click_listener [0] [0, 0, 0] demo_page))) [0])
     = {''page-slide-out-right'', ''app-shell''} \<and>
   fst (click_listener [0] [0, 1] demo_page) = True \<and>
   set (classes_at (document (snd (click_listener [0] [0, 1] demo_page))) [0])
     = {''page-slide-out-left'', ''app-shell''}"
proof -
  have shell: "node_at (document demo_page) [0] \<noteq> None"
    by (simp add: demo_page_eq demo_document_def)
  have bk: "fst (click_listener [0] [0, 0, 0] demo_page) = True \<and>
      set (classes_at (document (snd (click_listener [0] [0, 0, 0] demo_page))) [0])
        = {''page-slide-out-right'', ''app-shell''}"
    using click_adds_slide_class [OF demo_closest_back _ _ _ shell, of "''/input''"]
    by (simp add: getAttribute_def startsWith_def demo_shell)
  have tb: "fst (click_listener [0] [0, 1] demo_page) = True \<and>
      set (classes_at (document (snd (click_listener [0] [0, 1] demo_page))) [0])
        = {''page-slide-out-left'', ''app-shell''}"
    using click_adds_slide_class [OF demo_closest_tab _ _ _ shell, of "''/report''"]
    by (simp add: getAttribute_def startsWith_def demo_shell)
  from bk tb show ?thesis by simp
qed

text \<open>C4 as stated fails: the class added for a back link is \<open>page-slide-out-right\<close>, and
  the shell does not get a class \<open>slide-out-right\<close>.\<close>

theorem slide_class_counterexample:
  "closest transition_anchor (document demo_page) [0, 0, 0] =
     Some (Node ''a'' [(''href'', ''/input''), (''data-transition'', ''back'')] []
             [Node ''span'' [] [] []]) \<and>
   fst (click_listener [0] [0, 0, 0] demo_page) = True \<and>
   classes_at (document (snd (click_listener [0] [0, 0, 0] demo_page))) [0]
     = [''app-shell'', ''page-slide-out-right''] \<and>
   ''slide-out-right''
     \<notin> set (classes_at (document (snd (click_listener [0] [0, 0, 0] demo_page))) [0])"
  by code_simp




subsection \<open>Clicks the listener lets through\<close>

text \<open>
  C5. When the nearest transition anchor has no href, an empty href or an href that
  starts with \<open>http\<close>, the listener returns at once: it does not prevent the default
  action and the page (document, pending timers, location) is what it was.
\<close>

theorem click_listener_passes_external:
  assumes "closest transition_anchor (document pg) target = Some link"
    and "getAttribute link ''href'' = None \<or> getAttribute link ''href'' = Some [] \<or>
         (\<exists>u. getAttribute link ''href'' = Some u \<and> startsWith u ''http'')"
  shows "click_listener shell target pg = (False, pg)"
  using assms by (auto simp: click_listener_def Let_def)

theorem click_listener_passes_external_witness:
  "startsWith ''https://example.org/'' ''http'' \<and>
   click_listener [0] [0, 2] demo_page = (False, demo_page)"
proof -
  have ext: "startsWith ''https://example.org/'' ''http''"
    by (simp add: startsWith_def)
  with click_listener_passes_external [OF demo_closest_external, of "[0]"]
  show ?thesis by (simp add: getAttribute_def)
qed

text \<open>
  C7. When neither the target nor any of its ancestors is an anchor with the transition
  attribute, the listener returns at once: the default action is not prevented and the
  page is what it was.
\<close>

theorem click_listener_ignores_plain:
  assumes "\<forall>n \<in> set (ancestors_or_self (document pg) target). \<not> transition_anchor n"
  shows "click_listener shell target pg = (False, pg)"
proof -
  from assms have "closest transition_anchor (document pg) target = None"
    by (simp add: closest_def find_None_iff)
  then show ?thesis by (simp add: click_listener_def)
qed

theorem click_listener_ignores_plain_witness:
  "list_all (\<lambda>n. \<not> transition_anchor n) (ancestors_or_self (document demo_page) [0, 3]) \<and>
   click_listener [0] [0, 3] demo_page = (False, demo_page)"
proof -
  have plain: "list_all (\<lambda>n. \<not> transition_anchor n)
      (ancestors_or_self (document demo_page) [0, 3])"
    by (simp add: demo_page_eq ancestors_or_self_def demo_document_def transition_anchor_def
        getAttribute_def)
  then have "\<forall>n \<in> set (ancestors_or_self (document demo_page) [0, 3]). \<not> transition_anchor n"
    by (simp add: list_all_iff)
  from click_listener_ignores_plain [OF this, of "[0]"] plain show ?thesis by simp
qed

subsection \<open>A document without a shell\<close>

text \<open>
  C10. When no element of the document has the class \<open>app-shell\<close>, the
  \<open>DOMContentLoaded\<close> listener registers no click listener, and then in every run of
  clicks and time steps no click has its default action prevented, the document stays as
  it was (no class is added), no timer is ever pending and the location does not change.
\<close>

theorem no_shell_no_listener:
  assumes "\<forall>p n. node_at doc p = Some n \<longrightarrow> \<not> app_shell n"
  shows "listeners (DOMContentLoaded (initial_page doc href)) = [] \<and>
     (\<forall>es. True \<notin> set (fst (run es (DOMContentLoaded (initial_page doc href)))) \<and>
           document (snd (run es (DOMContentLoaded (initial_page doc href)))) = doc \<and>
           timers (snd (run es (DOMContentLoaded (initial_page doc href)))) = [] \<and>
           location_href (snd (run es (DOMContentLoaded (initial_page doc href)))) = href)"
proof -
  from assms have "querySelector app_shell doc = None"
    by (simp add: querySelector_None)
  then have pg: "DOMContentLoaded (initial_page doc href) = initial_page doc href"
    by (simp add: DOMContentLoaded_def initial_page_def)
  have init: "listeners (initial_page doc href) = []" "timers (initial_page doc href) = []"
    "document (initial_page doc href) = doc" "location_href (initial_page doc href) = href"
    by (simp_all add: initial_page_def)
  from run_no_listeners [OF init(1,2)] init show ?thesis
    unfolding pg by simp
qed

theorem no_shell_no_listener_witness:
  "querySelector app_shell bare_document = None \<and>
   closest transition_anchor bare_document [0] =
     Some (Node ''a'' [(''href'', ''/input''), (''data-transition'', ''back'')] [] []) \<and>
   listeners (DOMContentLoaded (initial_page bare_document ''/'')) = [] \<and>
   True \<notin> set (fst (run [Click [0], Elapse 200] (DOMContentLoaded (initial_page bare_document ''/'')))) \<and>
   document (snd (run [Click [0], Elapse 200] (DOMContentLoaded (initial_page bare_document ''/''))))
     = bare_document \<and>
   timers (snd (run [Click [0], Elapse 200] (DOMContentLoaded (initial_page bare_document ''/'')))) = [] \<and>
   location_href (snd (run [Click [0], Elapse 200] (DOMContentLoaded (initial_page bare_document ''/''))))
     = ''/''"
proof -
  have none: "querySelector app_shell bare_document = None"
    by (simp add: bare_document_def app_shell_def)
  then have hyp: "\<forall>p n. node_at bare_document p = Some n \<longrightarrow> \<not> app_shell n"
    by (simp add: querySelector_None)
  have link: "closest transition_anchor bare_document [0] =
     Some (Node ''a'' [(''href'', ''/input''), (''data-transition'', ''back'')] [] [])"
    by (simp add: closest_def ancestors_or_self_def bare_document_def transition_anchor_def
        getAttribute_def)
  from no_shell_no_listener [OF hyp, of "''/''"] none link show ?thesis by blast
qed

end
